theory Spec2Isabelle
  imports Complex_Main "HOL-Library.AList"
begin

section \<open>Monodog authorization layer: sessions, OAuth state, permission cache\<close>

text \<open>
  The development follows four modules of the backend:
  \<^item> \<^verbatim>\<open>types/auth\<close>: the shapes of sessions and cached permissions;
  \<^item> \<^verbatim>\<open>services/github-oauth-service\<close>: the HTTPS request helper, the permission
    request built on it, the role mapping and the hierarchy check;
  \<^item> \<^verbatim>\<open>services/permission-service\<close>: the permission cache and the resolver;
  \<^item> \<^verbatim>\<open>middleware/auth-middleware\<close> and \<^verbatim>\<open>routes/auth-routes\<close>: the session store
    and the OAuth state store.

  Conventions. Times are milliseconds since the epoch, as \<open>Date.now()\<close> gives them, and
  are integers. Every read of the clock is an argument of the function that reads it,
  one argument per read, in the order of the reads. A JavaScript \<open>Map\<close> is an
  association list in insertion order with distinct keys: \<open>Map.set\<close> replaces the value
  of a present key in place and appends an absent one, \<open>Map.delete\<close> drops the key,
  \<open>Map.size\<close> is the length, and iteration runs from the head of the list.
\<close>

subsection \<open>JavaScript maps\<close>

abbreviation Map_get :: "('k \<times> 'v) list \<Rightarrow> 'k \<Rightarrow> 'v option" where
  "Map_get m k \<equiv> map_of m k"

abbreviation Map_set :: "'k \<Rightarrow> 'v \<Rightarrow> ('k \<times> 'v) list \<Rightarrow> ('k \<times> 'v) list" where
  "Map_set k v m \<equiv> AList.update k v m"

abbreviation Map_delete :: "'k \<Rightarrow> ('k \<times> 'v) list \<Rightarrow> ('k \<times> 'v) list" where
  "Map_delete k m \<equiv> AList.delete k m"

abbreviation Map_size :: "('k \<times> 'v) list \<Rightarrow> nat" where
  "Map_size m \<equiv> length m"

abbreviation Map_keys :: "('k \<times> 'v) list \<Rightarrow> 'k set" where
  "Map_keys m \<equiv> fst ` set m"

definition Map_ok :: "('k \<times> 'v) list \<Rightarrow> bool" where
  "Map_ok m = distinct (map fst m)"

subsection \<open>Types (types/auth)\<close>

text \<open>
  \<open>RepositoryPermission\<close> is declared as the union of the five labels
  \<open>'admin' | 'maintain' | 'write' | 'read' | 'none'\<close>, but the value comes out of the
  provider's JSON unchecked, and the code has \<open>default\<close> and \<open>|| []\<close> branches for
  what the union leaves out. A permission is therefore what the running code can hold:
  a string, or \<open>undefined\<close> when the response has no \<open>permission\<close> property.
\<close>

datatype RepositoryPermission = Undefined | Str string

datatype MonoDogPermissionRole = Admin | Maintainer | Collaborator | Denied

record GitHubUser =
  id' :: int
  login :: string
  name :: "string option"
  email :: "string option"
  avatar_url :: string
  html_url :: string
  bio :: "string option"
  public_repos :: int
  followers :: int
  following :: int

record AuthSession =
  accessToken :: string
  refreshToken :: "string option"
  expiresIn :: int
  expiresAt :: int
  user :: GitHubUser
  scopes :: "string list"

record CachedPermission =
  userId :: int
  username :: string
  owner :: string
  repo :: string
  permission :: RepositoryPermission
  role :: MonoDogPermissionRole
  cachedAt :: int
  ttl :: int

record OAuthState =
  createdAt :: int
  redirectUrl :: "string option"

subsection \<open>Role mapping and hierarchy (github-oauth-service)\<close>

fun mapPermissionToRole :: "RepositoryPermission \<Rightarrow> MonoDogPermissionRole" where
  "mapPermissionToRole p =
     (if p = Str ''admin'' then Admin
      else if p = Str ''maintain'' then Maintainer
      else if p = Str ''write'' \<or> p = Str ''read'' then Collaborator
      else Denied)"

text \<open>
  \<open>permissionHierarchy[x]\<close> is \<open>undefined\<close> for a key the object literal does not
  have, and \<open>>=\<close> with \<open>undefined\<close> on either side is false. The model covers the keys
  the literal owns and the keys no object has; the names every object inherits
  (\<open>constructor\<close>, \<open>toString\<close>, \<open>__proto__\<close> and the like), which the declared type of
  the parameters excludes, are outside it.
\<close>

definition permissionHierarchy :: "(RepositoryPermission \<times> nat) list" where
  "permissionHierarchy =
     [(Str ''admin'', 4), (Str ''maintain'', 3), (Str ''write'', 2), (Str ''read'', 1),
      (Str ''none'', 0)]"

definition hasPermission :: "RepositoryPermission \<Rightarrow> RepositoryPermission \<Rightarrow> bool" where
  "hasPermission userPermission requiredPermission =
     (case (map_of permissionHierarchy userPermission,
            map_of permissionHierarchy requiredPermission) of
        (Some u, Some r) \<Rightarrow> r \<le> u
      | _ \<Rightarrow> False)"

subsection \<open>Action check (permission-service)\<close>

definition actionPermissionMap :: "(RepositoryPermission \<times> RepositoryPermission list) list" where
  "actionPermissionMap =
     [(Str ''read'', [Str ''read'', Str ''write'', Str ''maintain'', Str ''admin'']),
      (Str ''write'', [Str ''write'', Str ''maintain'', Str ''admin'']),
      (Str ''maintain'', [Str ''maintain'', Str ''admin'']),
      (Str ''admin'', [Str ''admin''])]"

text \<open>
  The route checks \<open>['read', 'write', 'maintain', 'admin'].includes(action)\<close> before
  the call, and the parameter is typed with these four literals; any other key that the
  literal does not own falls to \<open>|| []\<close>. The names every object inherits
  (\<open>constructor\<close>, \<open>toString\<close>, \<open>__proto__\<close> and the like), for which the code throws a
  \<open>TypeError\<close>, are outside the model.
\<close>

definition canPerformAction :: "RepositoryPermission \<Rightarrow> RepositoryPermission \<Rightarrow> bool" where
  "canPerformAction perm requiredAction =
     (let allowedPermissions =
        (case map_of actionPermissionMap requiredAction of
           Some ps \<Rightarrow> ps
         | None \<Rightarrow> [])
      in perm \<in> set allowedPermissions)"

definition permission_levels :: "RepositoryPermission list" where
  "permission_levels =
     [Str ''none'', Str ''read'', Str ''write'', Str ''maintain'', Str ''admin'']"

definition required_actions :: "RepositoryPermission list" where
  "required_actions = [Str ''read'', Str ''write'', Str ''maintain'', Str ''admin'']"

definition rank :: "RepositoryPermission \<Rightarrow> nat" where
  "rank p = (case map_of permissionHierarchy p of Some n \<Rightarrow> n | None \<Rightarrow> 0)"

subsection \<open>The HTTPS request and the permission request (github-oauth-service)\<close>




datatype error =
    RequestError string
  | RequestTimeout
  | GitHubApiError nat
  | ParseError
  | TypeError



subsection \<open>Permission cache (permission-service)\<close>

definition DEFAULT_TTL :: int where
  "DEFAULT_TTL = 5 * 60 * 1000"

definition MAX_CACHE_SIZE :: nat where
  "MAX_CACHE_SIZE = 10000"

type_synonym permission_cache = "(string \<times> CachedPermission) list"

text \<open>
  Decimal digits of a number, as a template literal prints a user id. The model prints
  integers exactly; it covers the ids that a JavaScript number holds exactly and prints
  without an exponent.
\<close>

fun string_of_nat :: "nat \<Rightarrow> string" where
  "string_of_nat n =
     (if n < 10 then [''0123456789'' ! n]
      else string_of_nat (n div 10) @ [''0123456789'' ! (n mod 10)])"

declare string_of_nat.simps [simp del]

definition string_of_int :: "int \<Rightarrow> string" where
  "string_of_int i =
     (if i < 0 then CHR ''-'' # string_of_nat (nat (- i)) else string_of_nat (nat i))"

definition getCacheKey :: "int \<Rightarrow> string \<Rightarrow> string \<Rightarrow> string" where
  "getCacheKey uid own rep = string_of_int uid @ '':'' @ own @ ''/'' @ rep"


text \<open>
  The eviction scan of \<open>setCachedPermission\<close>: the loop over the entries, carrying
  \<open>oldestKey\<close> and \<open>oldestTime\<close>.
\<close>

fun oldest_scan :: "permission_cache \<Rightarrow> string \<times> int \<Rightarrow> string \<times> int" where
  "oldest_scan [] (oldestKey, oldestTime) = (oldestKey, oldestTime)"
| "oldest_scan ((k, entry) # rest) (oldestKey, oldestTime) =
     (if cachedAt entry < oldestTime then oldest_scan rest (k, cachedAt entry)
      else oldest_scan rest (oldestKey, oldestTime))"

text \<open>
  \<open>setCachedPermission\<close> reads the clock for \<open>cachedAt\<close> (\<open>now\<close>) and, when the cache is
  full, once more for the start value of \<open>oldestTime\<close> (\<open>scanStart\<close>). An omitted
  \<open>ttl\<close> argument is \<open>None\<close>. The empty string is the only falsy key.
\<close>

definition setCachedPermission ::
  "int \<Rightarrow> string \<Rightarrow> string \<Rightarrow> string \<Rightarrow> RepositoryPermission \<Rightarrow> int option
     \<Rightarrow> int \<Rightarrow> int \<Rightarrow> permission_cache \<Rightarrow> CachedPermission \<times> permission_cache" where
  "setCachedPermission uid uname own rep perm ttl_arg now scanStart cache =
     (let cached = \<lparr> userId = uid, username = uname, owner = own, repo = rep,
                      permission = perm, role = mapPermissionToRole perm, cachedAt = now,
                      ttl = (case ttl_arg of None \<Rightarrow> DEFAULT_TTL | Some t \<Rightarrow> t) \<rparr>;
          key = getCacheKey uid own rep;
          cache1 =
            (if Map_size cache \<ge> MAX_CACHE_SIZE then
               (let oldestKey = fst (oldest_scan cache ([], scanStart)) in
                if oldestKey \<noteq> [] then Map_delete oldestKey cache else cache)
             else cache)
      in (cached, Map_set key cached cache1))"



definition invalidatePermissionCache ::
  "int \<Rightarrow> string \<Rightarrow> string \<Rightarrow> permission_cache \<Rightarrow> permission_cache" where
  "invalidatePermissionCache uid own rep cache = Map_delete (getCacheKey uid own rep) cache"


subsection \<open>Session store (auth-middleware)\<close>

type_synonym session_store = "(string \<times> AuthSession) list"

definition sessionTimeout :: int where
  "sessionTimeout = 24 * 60 * 60 * 1000"

definition chars :: string where
  "chars = ''ABCDEFGHIJKLMNOPQRSTUVWXYZabcdefghijklmnopqrstuvwxyz0123456789''"

text \<open>\<open>String.charAt\<close> gives the empty string for an index out of range.\<close>

definition charAt :: "string \<Rightarrow> int \<Rightarrow> string" where
  "charAt s i = (if 0 \<le> i \<and> i < int (length s) then [s ! nat i] else [])"

text \<open>
  \<open>generateSessionToken\<close>: the \<open>i\<close>-th turn of the loop draws \<open>random i\<close> from
  \<open>Math.random()\<close>, a number in the interval from 0 up to but not including 1. The
  product with the length of \<open>chars\<close> is taken in the reals. The double-precision
  product of the code can round up to the next integer, so the index of a turn can be
  one more than the floor taken here; it stays between 0 and 61, and the turn appends
  one character of \<open>chars\<close> either way.
\<close>

function token_loop :: "(nat \<Rightarrow> real) \<Rightarrow> nat \<Rightarrow> nat \<Rightarrow> string \<Rightarrow> string" where
  "token_loop random len i token =
     (if i < len
      then token_loop random len (i + 1)
             (token @ charAt chars \<lfloor>random i * real (length chars)\<rfloor>)
      else token)"
  by pat_completeness auto
termination
  by (relation "measure (\<lambda>(random, len, i, token). len - i)") auto

declare token_loop.simps [simp del]

definition generateSessionToken :: "nat option \<Rightarrow> (nat \<Rightarrow> real) \<Rightarrow> string" where
  "generateSessionToken length_arg random =
     token_loop random (case length_arg of None \<Rightarrow> 32 | Some n \<Rightarrow> n) 0 []"

text \<open>
  \<open>storeSession\<close> returns the token, and leaves the session in the store and a timer
  that deletes the token after \<open>sessionTimeout\<close>.
\<close>

definition storeSession ::
  "AuthSession \<Rightarrow> (nat \<Rightarrow> real) \<Rightarrow> session_store
     \<Rightarrow> string \<times> session_store \<times> (string \<times> int)" where
  "storeSession session random store =
     (let token = generateSessionToken None random
      in (token, Map_set token session store, (token, sessionTimeout)))"

definition getSession ::
  "string \<Rightarrow> int \<Rightarrow> session_store \<Rightarrow> AuthSession option \<times> session_store" where
  "getSession token now store =
     (case Map_get store token of
        None \<Rightarrow> (None, store)
      | Some session \<Rightarrow>
          if now > expiresAt session then (None, Map_delete token store)
          else (Some session, store))"

definition invalidateSession :: "string \<Rightarrow> session_store \<Rightarrow> session_store" where
  "invalidateSession token store = Map_delete token store"

text \<open>
  \<open>clearExpiredSessions\<close>: the loop over the entries carries the store and
  \<open>clearedCount\<close>. The function is declared \<open>void\<close> and has no \<open>return\<close>: the caller
  receives \<open>undefined\<close>, and the count goes to the debug log when it is positive.
\<close>

fun sweep_loop ::
  "int \<Rightarrow> session_store \<Rightarrow> session_store \<times> nat \<Rightarrow> session_store \<times> nat" where
  "sweep_loop now [] (store, clearedCount) = (store, clearedCount)"
| "sweep_loop now ((token, session) # rest) (store, clearedCount) =
     (if now > expiresAt session
      then sweep_loop now rest (Map_delete token store, clearedCount + 1)
      else sweep_loop now rest (store, clearedCount))"

datatype log_level = Debug | Info | Warn | Error

record sweep_outcome =
  returned :: "nat option"
  store_after :: session_store
  logged :: "(log_level \<times> string) list"

definition clearExpiredSessions :: "int \<Rightarrow> session_store \<Rightarrow> sweep_outcome" where
  "clearExpiredSessions now store =
     (let (store', clearedCount) = sweep_loop now store (store, 0)
      in \<lparr> returned = None,
           store_after = store',
           logged = (if clearedCount > 0
                     then [(Debug, ''Cleared '' @ string_of_nat clearedCount @ '' expired sessions'')]
                     else []) \<rparr>)"

subsection \<open>OAuth state store (auth-routes)\<close>

type_synonym state_store = "(string \<times> OAuthState) list"

definition STATE_EXPIRY :: int where
  "STATE_EXPIRY = 10 * 60 * 1000"

definition validateState :: "string \<Rightarrow> int \<Rightarrow> state_store \<Rightarrow> bool \<times> state_store" where
  "validateState state now stateStore =
     (case Map_get stateStore state of
        None \<Rightarrow> (False, stateStore)
      | Some entry \<Rightarrow>
          if now - createdAt entry > STATE_EXPIRY then (False, Map_delete state stateStore)
          else (True, stateStore))"

definition getRedirectUrl :: "string \<Rightarrow> state_store \<Rightarrow> string option" where
  "getRedirectUrl state stateStore =
     (case Map_get stateStore state of
        None \<Rightarrow> None
      | Some entry \<Rightarrow> redirectUrl entry)"

definition clearState :: "string \<Rightarrow> state_store \<Rightarrow> state_store" where
  "clearState state stateStore = Map_delete state stateStore"


subsection \<open>Predicates and example states used in the statements\<close>

definition alphanumeric :: "char \<Rightarrow> bool" where
  "alphanumeric c =
     (let n = (of_char c :: nat)
      in (65 \<le> n \<and> n \<le> 90) \<or> (97 \<le> n \<and> n \<le> 122) \<or> (48 \<le> n \<and> n \<le> 57))"

definition example_user :: GitHubUser where
  "example_user = \<lparr> id' = 42, login = ''alice'', name = None, email = None,
     avatar_url = ''https://avatars.example/42'', html_url = ''https://github.example/alice'',
     bio = None, public_repos = 3, followers = 0, following = 0 \<rparr>"

definition example_session :: "int \<Rightarrow> AuthSession" where
  "example_session expiry = \<lparr> accessToken = ''gho_token'', refreshToken = None,
     expiresIn = 3600, expiresAt = expiry, user = example_user,
     scopes = [''read:user'', ''repo''] \<rparr>"

text \<open>Two sessions, one expiring at time 5 and one at time 50.\<close>

definition example_sessions :: session_store where
  "example_sessions = [(''tokenA'', example_session 5), (''tokenB'', example_session 50)]"

text \<open>One state issued at time 0.\<close>

definition example_states :: state_store where
  "example_states = [(''s1'', \<lparr> createdAt = 0, redirectUrl = Some ''/'' \<rparr>)]"

text \<open>
  A cache at capacity: the users 2 to 10001 each hold an entry for the repository
  \<open>acme/widgets\<close>, all cached at time \<open>t\<close>.
\<close>

definition full_cache :: "int \<Rightarrow> permission_cache" where
  "full_cache t =
     map (\<lambda>i. (getCacheKey (int i + 2) ''acme'' ''widgets'',
               \<lparr> userId = int i + 2, username = ''user'' @ string_of_nat (i + 2),
                 owner = ''acme'', repo = ''widgets'', permission = Str ''read'',
                 role = Collaborator, cachedAt = t, ttl = DEFAULT_TTL \<rparr>))
       [0..<MAX_CACHE_SIZE]"


section \<open>Theorems\<close>

lemma rank_values:
  "rank (Str ''none'') = 0" "rank (Str ''read'') = 1" "rank (Str ''write'') = 2"
  "rank (Str ''maintain'') = 3" "rank (Str ''admin'') = 4"
  by (simp_all add: rank_def permissionHierarchy_def)

lemma canPerformAction_rows:
  "canPerformAction p (Str ''read'') \<longleftrightarrow>
     p \<in> {Str ''read'', Str ''write'', Str ''maintain'', Str ''admin''}"
  "canPerformAction p (Str ''write'') \<longleftrightarrow> p \<in> {Str ''write'', Str ''maintain'', Str ''admin''}"
  "canPerformAction p (Str ''maintain'') \<longleftrightarrow> p \<in> {Str ''maintain'', Str ''admin''}"
  "canPerformAction p (Str ''admin'') \<longleftrightarrow> p = Str ''admin''"
  by (simp_all add: canPerformAction_def actionPermissionMap_def)

text \<open>
  C3. For a level among none, read, write, maintain, admin and a required action among
  read, write, maintain, admin, \<open>canPerformAction\<close> holds exactly when the rank of the
  level is at least the rank of the action, the ranks being none 0, read 1, write 2,
  maintain 3, admin 4; \<open>hasPermission\<close> gives the same answer. In particular write does
  not allow admin, admin allows read, and none does not allow read.
\<close>

theorem canPerformAction_rank:
  assumes "level \<in> set permission_levels" and "action \<in> set required_actions"
  shows "canPerformAction level action = (rank action \<le> rank level)
       \<and> hasPermission level action = (rank action \<le> rank level)
       \<and> map rank permission_levels = [0, 1, 2, 3, 4]
       \<and> \<not> canPerformAction (Str ''write'') (Str ''admin'')
       \<and> canPerformAction (Str ''admin'') (Str ''read'')
       \<and> \<not> canPerformAction (Str ''none'') (Str ''read'')"
proof -
  have lv: "level = Str ''none'' \<or> level = Str ''read'' \<or> level = Str ''write''
          \<or> level = Str ''maintain'' \<or> level = Str ''admin''"
    using assms(1) by (simp add: permission_levels_def)
  have ac: "action = Str ''read'' \<or> action = Str ''write''
          \<or> action = Str ''maintain'' \<or> action = Str ''admin''"
    using assms(2) by (simp add: required_actions_def)
  have c: "canPerformAction level action = (rank action \<le> rank level)"
    using lv ac by (auto simp: canPerformAction_rows rank_values)
  have h: "hasPermission level action = (rank action \<le> rank level)"
    using lv ac by (auto simp: hasPermission_def rank_def permissionHierarchy_def)
  have r: "map rank permission_levels = [0, 1, 2, 3, 4]"
    by (simp add: permission_levels_def rank_values)
  show ?thesis
    using c h r by (simp add: canPerformAction_rows)
qed

theorem canPerformAction_rank_witness:
  "Str ''write'' \<in> set permission_levels \<and> Str ''admin'' \<in> set required_actions
   \<and> canPerformAction (Str ''write'') (Str ''admin'') = (rank (Str ''admin'') \<le> rank (Str ''write''))
   \<and> \<not> canPerformAction (Str ''write'') (Str ''admin'')"
proof -
  have l: "Str ''write'' \<in> set permission_levels" by (simp add: permission_levels_def)
  have a: "Str ''admin'' \<in> set required_actions" by (simp add: required_actions_def)
  show ?thesis using l a canPerformAction_rank [OF l a] by (simp add: rank_values)
qed

subsection \<open>Facts about maps\<close>

lemma Map_set_fresh: "k \<notin> Map_keys m \<Longrightarrow> Map_set k v m = m @ [(k, v)]"
  by (induction m) auto

lemma Map_delete_filter: "Map_delete k m = filter (\<lambda>p. fst p \<noteq> k) m"
  by (induction m) auto

lemma Map_get_deleted: "Map_get (Map_delete k m) k = None"
  by (simp add: delete_conv')

subsection \<open>Cache keys\<close>

lemma string_of_nat_nonempty: "string_of_nat n \<noteq> []"
  by (subst string_of_nat.simps) simp

lemma last_string_of_nat: "last (string_of_nat n) = ''0123456789'' ! (n mod 10)"
  by (subst string_of_nat.simps) simp

lemma butlast_string_of_nat:
  "butlast (string_of_nat n) = (if n < 10 then [] else string_of_nat (n div 10))"
  by (subst string_of_nat.simps) simp

lemma digit_inj:
  assumes "''0123456789'' ! a = ''0123456789'' ! b" and "a < 10" and "b < 10"
  shows "a = b"
proof -
  have "distinct ''0123456789''" by simp
  moreover have "a < length ''0123456789''" "b < length ''0123456789''"
    using assms(2,3) by simp_all
  ultimately show ?thesis
    using assms(1) nth_eq_iff_index_eq by blast
qed

lemma string_of_nat_inj: "string_of_nat m = string_of_nat n \<Longrightarrow> m = n"
proof (induction m arbitrary: n rule: less_induct)
  case (less m)
  have units: "m mod 10 = n mod 10"
    using less.prems last_string_of_nat [of m] last_string_of_nat [of n]
    by (auto intro: digit_inj)
  have front: "(if m < 10 then [] else string_of_nat (m div 10))
         = (if n < 10 then [] else string_of_nat (n div 10))"
    using less.prems butlast_string_of_nat [of m] butlast_string_of_nat [of n] by simp
  show ?case
  proof (cases "m < 10")
    case True
    with front have "n < 10"
      using string_of_nat_nonempty [of "n div 10"] by (auto split: if_splits)
    with True units show ?thesis by simp
  next
    case False
    with front have "\<not> n < 10"
      using string_of_nat_nonempty [of "m div 10"] by (auto split: if_splits)
    with False front have "string_of_nat (m div 10) = string_of_nat (n div 10)" by simp
    moreover have "m div 10 < m" using False by simp
    ultimately have "m div 10 = n div 10" by (rule less.IH [rotated])
    with units show ?thesis
      by (metis div_mult_mod_eq)
  qed
qed

lemma getCacheKey_inj_userId:
  "getCacheKey (int a) own rep = getCacheKey (int b) own rep \<Longrightarrow> a = b"
  by (auto simp: getCacheKey_def string_of_int_def dest: string_of_nat_inj)

lemma getCacheKey_nonempty: "getCacheKey uid own rep \<noteq> []"
  by (simp add: getCacheKey_def)

subsection \<open>The eviction scan\<close>

lemma oldest_scan_none_older:
  "\<forall>(k, entry) \<in> set cache. t \<le> cachedAt entry \<Longrightarrow> oldest_scan cache (k0, t) = (k0, t)"
  by (induction cache) auto

lemma oldest_scan_pick:
  "oldest_scan cache (k0, t0) = (k, t) \<Longrightarrow>
     (k = k0 \<and> t = t0) \<or> (\<exists>entry. (k, entry) \<in> set cache \<and> cachedAt entry = t \<and> t < t0)"
proof (induction cache arbitrary: k0 t0)
  case Nil
  then show ?case by simp
next
  case (Cons p cache)
  obtain k1 e1 where p: "p = (k1, e1)" by (cases p)
  show ?case
  proof (cases "cachedAt e1 < t0")
    case True
    with Cons.prems p have "oldest_scan cache (k1, cachedAt e1) = (k, t)" by simp
    from Cons.IH [OF this] True p show ?thesis by auto
  next
    case False
    with Cons.prems p have "oldest_scan cache (k0, t0) = (k, t)" by simp
    from Cons.IH [OF this] show ?thesis by auto
  qed
qed

lemma setCachedPermission_none_older:
  assumes "\<forall>(k, entry) \<in> set cache. scanStart \<le> cachedAt entry"
    and "getCacheKey uid own rep \<notin> Map_keys cache"
  shows "snd (setCachedPermission uid uname own rep perm ttl_arg now scanStart cache)
           = cache @ [(getCacheKey uid own rep,
                       fst (setCachedPermission uid uname own rep perm ttl_arg now scanStart cache))]"
  using assms
  by (simp add: setCachedPermission_def Let_def oldest_scan_none_older Map_set_fresh)

lemma setCachedPermission_none:
  "fst (setCachedPermission uid uname own rep (Str ''none'') None now scanStart cache)
     = \<lparr> userId = uid, username = uname, owner = own, repo = rep, permission = Str ''none'',
         role = Denied, cachedAt = now, ttl = 5 * 60 * 1000 \<rparr>
   \<and> Map_get (snd (setCachedPermission uid uname own rep (Str ''none'') None now scanStart cache))
        (getCacheKey uid own rep)
     = Some (fst (setCachedPermission uid uname own rep (Str ''none'') None now scanStart cache))"
  by (simp add: setCachedPermission_def DEFAULT_TTL_def Let_def update_conv')

subsection \<open>The full cache\<close>

lemma length_full_cache: "Map_size (full_cache t) = 10000"
  by (simp add: full_cache_def MAX_CACHE_SIZE_def)

lemma full_cache_cachedAt: "\<forall>(k, entry) \<in> set (full_cache t). cachedAt entry = t"
  by (auto simp: full_cache_def)

lemma full_cache_fresh_key: "getCacheKey 1 ''acme'' ''widgets'' \<notin> Map_keys (full_cache t)"
proof
  assume "getCacheKey 1 ''acme'' ''widgets'' \<in> Map_keys (full_cache t)"
  then obtain i where "getCacheKey 1 ''acme'' ''widgets'' = getCacheKey (int i + 2) ''acme'' ''widgets''"
    by (auto simp: full_cache_def)
  then have "getCacheKey (int 1) ''acme'' ''widgets'' = getCacheKey (int (i + 2)) ''acme'' ''widgets''"
    by (simp only: of_nat_add of_nat_numeral of_nat_1)
  then have "1 = i + 2" by (rule getCacheKey_inj_userId)
  then show False by simp
qed

lemma full_cache_ok: "Map_ok (full_cache t)"
proof -
  have "inj_on (\<lambda>i. getCacheKey (int i + 2) ''acme'' ''widgets'') A" for A
  proof (rule inj_onI)
    fix i j
    assume "getCacheKey (int i + 2) ''acme'' ''widgets'' = getCacheKey (int j + 2) ''acme'' ''widgets''"
    then have "getCacheKey (int (i + 2)) ''acme'' ''widgets'' = getCacheKey (int (j + 2)) ''acme'' ''widgets''"
      by (simp only: of_nat_add of_nat_numeral)
    then have "i + 2 = j + 2" by (rule getCacheKey_inj_userId)
    then show "i = j" by simp
  qed
  then show ?thesis
    by (simp add: Map_ok_def full_cache_def comp_def distinct_map)
qed

subsection \<open>The session sweep and the token loop\<close>

lemma sweep_loop_filter:
  "sweep_loop now es (st, c) =
     (filter (\<lambda>p. fst p \<notin> fst ` set (filter (\<lambda>p. now > expiresAt (snd p)) es)) st,
      c + length (filter (\<lambda>p. now > expiresAt (snd p)) es))"
proof (induction es arbitrary: st c)
  case Nil
  then show ?case by simp
next
  case (Cons p es)
  obtain token session where p: "p = (token, session)" by (cases p)
  show ?case
    using Cons.IH p by (auto simp: Map_delete_filter intro: filter_cong)
qed

lemma filter_expired_keys:
  assumes "distinct (map fst st)"
  shows "filter (\<lambda>p. fst p \<notin> fst ` set (filter (\<lambda>p. now > expiresAt (snd p)) st)) st
       = filter (\<lambda>p. \<not> now > expiresAt (snd p)) st"
proof (rule filter_cong [OF refl])
  fix p assume pin: "p \<in> set st"
  show "(fst p \<notin> fst ` set (filter (\<lambda>p. now > expiresAt (snd p)) st)) = (\<not> now > expiresAt (snd p))"
  proof
    assume "fst p \<notin> fst ` set (filter (\<lambda>p. now > expiresAt (snd p)) st)"
    with pin show "\<not> now > expiresAt (snd p)" by force
  next
    assume live: "\<not> now > expiresAt (snd p)"
    show "fst p \<notin> fst ` set (filter (\<lambda>p. now > expiresAt (snd p)) st)"
    proof
      assume "fst p \<in> fst ` set (filter (\<lambda>p. now > expiresAt (snd p)) st)"
      then obtain q where q: "q \<in> set st" "now > expiresAt (snd q)" "fst q = fst p" by auto
      from assms q(1) pin q(3) have "q = p" by (metis distinct_map inj_on_def)
      with q(2) live show False by simp
    qed
  qed
qed

lemma chars_alphanumeric: "list_all alphanumeric chars"
  by (simp add: chars_def alphanumeric_def)

lemma length_chars: "length chars = 62"
  by (simp add: chars_def)

lemma charAt_random:
  assumes "0 \<le> r" and "r < 1"
  shows "\<exists>c. charAt chars \<lfloor>r * real (length chars)\<rfloor> = [c] \<and> c \<in> set chars"
proof -
  have lo: "0 \<le> \<lfloor>r * real (length chars)\<rfloor>"
    using assms(1) by simp
  have "r * real (length chars) < 62"
    using assms(2) by (simp add: length_chars)
  then have hi: "\<lfloor>r * real (length chars)\<rfloor> < int (length chars)"
    by (simp add: length_chars floor_less_iff)
  from lo hi have "nat \<lfloor>r * real (length chars)\<rfloor> < length chars"
    by linarith
  then have "chars ! nat \<lfloor>r * real (length chars)\<rfloor> \<in> set chars"
    by (rule nth_mem)
  with lo hi show ?thesis
    by (simp add: charAt_def)
qed

lemma token_loop_shape:
  assumes "\<forall>j. i \<le> j \<and> j < len \<longrightarrow> 0 \<le> random j \<and> random j < 1"
  shows "\<exists>suffix. token_loop random len i token = token @ suffix
           \<and> length suffix = len - i \<and> set suffix \<subseteq> set chars"
  using assms
proof (induction random len i token rule: token_loop.induct)
  case (1 random len i token)
  show ?case
  proof (cases "i < len")
    case False
    then show ?thesis by (simp add: token_loop.simps)
  next
    case True
    with "1.prems" have r: "0 \<le> random i" "random i < 1" by auto
    from charAt_random [OF r] obtain c where
      c: "charAt chars \<lfloor>random i * real (length chars)\<rfloor> = [c]" "c \<in> set chars" by blast
    have "\<forall>j. i + 1 \<le> j \<and> j < len \<longrightarrow> 0 \<le> random j \<and> random j < 1"
      using "1.prems" by auto
    from "1.IH" [OF True this] obtain suffix where
      s: "token_loop random len (i + 1) (token @ charAt chars \<lfloor>random i * real (length chars)\<rfloor>)
            = (token @ charAt chars \<lfloor>random i * real (length chars)\<rfloor>) @ suffix"
         "length suffix = len - (i + 1)" "set suffix \<subseteq> set chars" by blast
    have "token_loop random len i token = token @ (c # suffix)"
      using True s(1) c(1) by (subst token_loop.simps) simp
    moreover have "length (c # suffix) = len - i"
      using True s(2) by simp
    moreover have "set (c # suffix) \<subseteq> set chars"
      using c(2) s(3) by simp
    ultimately show ?thesis by blast
  qed
qed


lemma oldest_scan_min:
  "oldest_scan cache (k0, t0) = (k, t) \<Longrightarrow>
     t \<le> t0 \<and> (\<forall>(k', entry) \<in> set cache. t \<le> cachedAt entry)"
proof (induction cache arbitrary: k0 t0)
  case Nil
  then show ?case by simp
next
  case (Cons p cache)
  obtain k1 e1 where p: "p = (k1, e1)" by (cases p)
  show ?case
  proof (cases "cachedAt e1 < t0")
    case True
    with Cons.prems p have "oldest_scan cache (k1, cachedAt e1) = (k, t)" by simp
    from Cons.IH [OF this] True p show ?thesis by auto
  next
    case False
    with Cons.prems p have "oldest_scan cache (k0, t0) = (k, t)" by simp
    from Cons.IH [OF this] False p show ?thesis by auto
  qed
qed

lemma Map_size_delete:
  "distinct (map fst m) \<Longrightarrow> k \<in> Map_keys m \<Longrightarrow> Suc (Map_size (Map_delete k m)) = Map_size m"
proof (induction m)
  case Nil
  then show ?case by simp
next
  case (Cons p m)
  show ?case
  proof (cases "fst p = k")
    case True
    with Cons.prems(1) have "k \<notin> Map_keys m" by auto
    with True show ?thesis by (cases p) simp
  next
    case False
    with Cons show ?thesis by (cases p) auto
  qed
qed

text \<open>
  The eviction as the scan performs it when some entry is older than the clock value
  the scan starts from: one entry of least \<open>cachedAt\<close> leaves, and the size stays at the
  capacity.
\<close>

lemma setCachedPermission_evicts_oldest:
  assumes ok: "Map_ok cache" and keys: "[] \<notin> Map_keys cache"
    and full: "Map_size cache = MAX_CACHE_SIZE"
    and fresh: "getCacheKey uid own rep \<notin> Map_keys cache"
    and older: "\<exists>(k, entry) \<in> set cache. cachedAt entry < scanStart"
  shows "\<exists>k entry. (k, entry) \<in> set cache
           \<and> (\<forall>(k', entry') \<in> set cache. cachedAt entry \<le> cachedAt entry')
           \<and> snd (setCachedPermission uid uname own rep perm ttl_arg now scanStart cache)
               = Map_delete k cache @
                   [(getCacheKey uid own rep,
                     fst (setCachedPermission uid uname own rep perm ttl_arg now scanStart cache))]
           \<and> Map_size (snd (setCachedPermission uid uname own rep perm ttl_arg now scanStart cache))
               = MAX_CACHE_SIZE"
proof -
  obtain k t where scan: "oldest_scan cache ([], scanStart) = (k, t)"
    by (cases "oldest_scan cache ([], scanStart)")
  from oldest_scan_min [OF scan] have least: "\<forall>(k', entry') \<in> set cache. t \<le> cachedAt entry'"
    by simp
  with older have "t < scanStart" by fastforce
  with oldest_scan_pick [OF scan] obtain entry where
    e: "(k, entry) \<in> set cache" "cachedAt entry = t" by auto
  from e(1) keys have k: "k \<noteq> []" by force
  from e(1) have kin: "k \<in> Map_keys cache" by force
  have fresh': "getCacheKey uid own rep \<notin> Map_keys (Map_delete k cache)"
    using fresh dom_delete_subset [of k cache] by blast
  have s: "snd (setCachedPermission uid uname own rep perm ttl_arg now scanStart cache)
               = Map_delete k cache @
                   [(getCacheKey uid own rep,
                     fst (setCachedPermission uid uname own rep perm ttl_arg now scanStart cache))]"
    using full scan k by (simp add: setCachedPermission_def Let_def Map_set_fresh [OF fresh'])
  have "Suc (Map_size (Map_delete k cache)) = MAX_CACHE_SIZE"
    using Map_size_delete [OF _ kin] ok full by (simp add: Map_ok_def)
  then have n: "Map_size (snd (setCachedPermission uid uname own rep perm ttl_arg now scanStart cache))
               = MAX_CACHE_SIZE"
    by (subst s) simp
  from e least s n show ?thesis by blast
qed


section \<open>Permission resolution when the provider fails\<close>







section \<open>The OAuth state store\<close>

text \<open>
  C2, as the claim states it, fails: a successful \<open>validateState\<close> leaves the record in
  the store, so a second validation of the same state succeeds as well.
\<close>

theorem validateState_counterexample:
  "fst (validateState ''s1'' 1000 example_states)
   \<and> snd (validateState ''s1'' 1000 example_states) = example_states
   \<and> fst (validateState ''s1'' 2000 (snd (validateState ''s1'' 1000 example_states)))"
  by (simp add: validateState_def example_states_def STATE_EXPIRY_def)

text \<open>
  C2, amended. \<open>validateState\<close> succeeds exactly when the state is stored and at most 10
  minutes old, and a success leaves the store as it was; only a state found expired is
  removed by the validation. The removal is the separate \<open>clearState\<close>, which the
  callback calls after the session is stored: once \<open>clearState\<close> has run, every later
  validation of that state fails, and so does every validation after a failed one.
\<close>

theorem validateState_then_clearState:
  "(fst (validateState state now stateStore)
      \<longleftrightarrow> (\<exists>entry. Map_get stateStore state = Some entry
                    \<and> now - createdAt entry \<le> 10 * 60 * 1000))
   \<and> (fst (validateState state now stateStore) \<longrightarrow>
        snd (validateState state now stateStore) = stateStore)
   \<and> \<not> fst (validateState state now' (clearState state stateStore))
   \<and> (\<not> fst (validateState state now stateStore) \<longrightarrow>
        \<not> fst (validateState state now' (snd (validateState state now stateStore))))"
  by (auto simp: validateState_def clearState_def STATE_EXPIRY_def Map_get_deleted
           split: option.splits)

theorem validateState_then_clearState_witness:
  "fst (validateState ''s1'' 1000 example_states)
   \<and> snd (validateState ''s1'' 1000 example_states) = example_states
   \<and> \<not> fst (validateState ''s1'' 2000 (clearState ''s1'' example_states))
   \<and> \<not> fst (validateState ''s1'' 600001 example_states)
   \<and> \<not> fst (validateState ''s1'' 2000 (snd (validateState ''s1'' 600001 example_states)))"
  using validateState_then_clearState [of "''s1''" 1000 example_states 2000]
        validateState_then_clearState [of "''s1''" 600001 example_states 2000]
  by (simp add: example_states_def)

section \<open>The session store\<close>

text \<open>
  C5. For a token whose stored session has \<open>now > expiresAt\<close>, \<open>getSession\<close> reports
  not found and removes the entry, so the token is no longer a key of the store; for a
  token whose stored session is not expired, it returns that session and leaves the
  store as it was.
\<close>

theorem getSession_lazy_expiry:
  assumes "Map_get store token = Some session"
  shows "(now > expiresAt session \<longrightarrow>
            fst (getSession token now store) = None
          \<and> snd (getSession token now store) = Map_delete token store
          \<and> token \<notin> Map_keys (snd (getSession token now store)))
       \<and> (\<not> now > expiresAt session \<longrightarrow>
            getSession token now store = (Some session, store))"
  using assms by (simp add: getSession_def delete_notin_dom)

theorem getSession_lazy_expiry_witness:
  "getSession ''tokenA'' 10 example_sessions = (None, [(''tokenB'', example_session 50)])
   \<and> getSession ''tokenB'' 10 example_sessions = (Some (example_session 50), example_sessions)"
proof -
  have a: "Map_get example_sessions ''tokenA'' = Some (example_session 5)"
    by (simp add: example_sessions_def)
  have b: "Map_get example_sessions ''tokenB'' = Some (example_session 50)"
    by (simp add: example_sessions_def)
  have ea: "expiresAt (example_session 5) = 5" and eb: "expiresAt (example_session 50) = 50"
    by (simp_all add: example_session_def)
  have d: "Map_delete ''tokenA'' example_sessions = [(''tokenB'', example_session 50)]"
    by (simp add: example_sessions_def)
  show ?thesis
    using getSession_lazy_expiry [OF a, of 10] getSession_lazy_expiry [OF b, of 10] ea eb d
    by (simp add: prod_eq_iff)
qed

text \<open>
  C6, as the claim states it, fails in its last part: the sweep removes one session
  here, and its caller receives \<open>undefined\<close>, not the count 1.
\<close>

theorem clearExpiredSessions_counterexample:
  "returned (clearExpiredSessions 10 example_sessions) = None
   \<and> returned (clearExpiredSessions 10 example_sessions) \<noteq> Some 1
   \<and> Map_size example_sessions - Map_size (store_after (clearExpiredSessions 10 example_sessions)) = 1"
  by (simp add: clearExpiredSessions_def example_sessions_def example_session_def)

text \<open>
  C6, amended. The sweep removes every entry with \<open>now > expiresAt\<close> and leaves every
  other entry in place and in order. It returns nothing; the number of entries removed
  is written to the debug log when it is positive.
\<close>

theorem clearExpiredSessions_sweeps:
  assumes "Map_ok store"
  shows "store_after (clearExpiredSessions now store)
           = filter (\<lambda>(token, session). \<not> now > expiresAt session) store
       \<and> returned (clearExpiredSessions now store) = None
       \<and> logged (clearExpiredSessions now store)
           = (let n = length (filter (\<lambda>(token, session). now > expiresAt session) store)
              in if n > 0 then [(Debug, ''Cleared '' @ string_of_nat n @ '' expired sessions'')]
                 else [])"
proof -
  have e1: "(\<lambda>(token, session). \<not> now > expiresAt session) = (\<lambda>p. \<not> now > expiresAt (snd p))"
    by (simp add: fun_eq_iff)
  have e2: "(\<lambda>(token, session). now > expiresAt session) = (\<lambda>p. now > expiresAt (snd p))"
    by (simp add: fun_eq_iff)
  have d: "distinct (map fst store)"
    using assms by (simp add: Map_ok_def)
  have l: "sweep_loop now store (store, 0)
             = (filter (\<lambda>p. \<not> now > expiresAt (snd p)) store,
                length (filter (\<lambda>p. now > expiresAt (snd p)) store))"
    unfolding sweep_loop_filter filter_expired_keys [OF d] by simp
  show ?thesis
    unfolding e1 e2 clearExpiredSessions_def l by (simp add: Let_def)
qed

theorem clearExpiredSessions_sweeps_witness:
  "store_after (clearExpiredSessions 10 example_sessions) = [(''tokenB'', example_session 50)]
   \<and> returned (clearExpiredSessions 10 example_sessions) = None
   \<and> logged (clearExpiredSessions 10 example_sessions) = [(Debug, ''Cleared 1 expired sessions'')]"
proof -
  have ok: "Map_ok example_sessions"
    by (simp add: Map_ok_def example_sessions_def)
  have s: "string_of_nat 1 = ''1''"
    by (simp add: string_of_nat.simps)
  show ?thesis
    using clearExpiredSessions_sweeps [OF ok, of 10] s
    by (simp add: example_sessions_def example_session_def)
qed

text \<open>
  C7. When every draw of the random source lies in the interval from 0 up to but not
  including 1, the token generated with the default length has exactly 32 characters,
  each an ASCII upper-case letter, lower-case letter or digit; \<open>storeSession\<close> issues
  such a token.
\<close>

theorem generateSessionToken_alphanumeric:
  assumes "\<forall>i<32. 0 \<le> random i \<and> random i < 1"
  shows "length (generateSessionToken None random) = 32
       \<and> list_all alphanumeric (generateSessionToken None random)
       \<and> fst (storeSession session random store) = generateSessionToken None random"
proof -
  have "\<forall>j. 0 \<le> j \<and> j < 32 \<longrightarrow> 0 \<le> random j \<and> random j < 1"
    using assms by simp
  from token_loop_shape [OF this, of "[]"] obtain suffix where
    s: "token_loop random 32 0 [] = suffix" "length suffix = 32" "set suffix \<subseteq> set chars"
    by auto
  have "list_all alphanumeric suffix"
    using s(3) chars_alphanumeric by (auto simp: list_all_iff)
  with s show ?thesis
    by (simp add: generateSessionToken_def storeSession_def)
qed

theorem generateSessionToken_alphanumeric_witness:
  "length (generateSessionToken None (\<lambda>i. 1 / 2)) = 32
   \<and> list_all alphanumeric (generateSessionToken None (\<lambda>i. 1 / 2))
   \<and> fst (storeSession (example_session 50) (\<lambda>i. 1 / 2) [])
        = generateSessionToken None (\<lambda>i. 1 / 2)"
  using generateSessionToken_alphanumeric [of "\<lambda>i. 1 / 2"] by simp

section \<open>Invalidation\<close>

text \<open>
  C8. Invalidating a session token, or a (user, owner, repository) triple of the
  permission cache, removes the key whether or not it is present: when the key is
  absent the store is unchanged, invalidating twice gives what invalidating once gives,
  and afterwards the key is absent. Both functions are total, so neither fails.
\<close>

theorem invalidate_idempotent:
  "(token \<notin> Map_keys store \<longrightarrow> invalidateSession token store = store)
   \<and> invalidateSession token (invalidateSession token store) = invalidateSession token store
   \<and> token \<notin> Map_keys (invalidateSession token store)
   \<and> (getCacheKey uid own rep \<notin> Map_keys cache \<longrightarrow>
        invalidatePermissionCache uid own rep cache = cache)
   \<and> invalidatePermissionCache uid own rep (invalidatePermissionCache uid own rep cache)
        = invalidatePermissionCache uid own rep cache
   \<and> getCacheKey uid own rep \<notin> Map_keys (invalidatePermissionCache uid own rep cache)"
proof -
  have removal: "(k \<notin> Map_keys m \<longrightarrow> Map_delete k m = m)
               \<and> Map_delete k (Map_delete k m) = Map_delete k m
               \<and> k \<notin> Map_keys (Map_delete k m)"
    for k :: string and m :: "(string \<times> 'v) list"
    by (simp add: delete_idem delete_notin_dom)
  have sessions: "(token \<notin> Map_keys store \<longrightarrow> invalidateSession token store = store)
     \<and> invalidateSession token (invalidateSession token store) = invalidateSession token store
     \<and> token \<notin> Map_keys (invalidateSession token store)"
    unfolding invalidateSession_def by (rule removal)
  have permissions: "(getCacheKey uid own rep \<notin> Map_keys cache \<longrightarrow>
        invalidatePermissionCache uid own rep cache = cache)
     \<and> invalidatePermissionCache uid own rep (invalidatePermissionCache uid own rep cache)
          = invalidatePermissionCache uid own rep cache
     \<and> getCacheKey uid own rep \<notin> Map_keys (invalidatePermissionCache uid own rep cache)"
    unfolding invalidatePermissionCache_def by (rule removal)
  from sessions permissions show ?thesis by simp
qed

theorem invalidate_idempotent_witness:
  "invalidateSession ''tokenC'' example_sessions = example_sessions
   \<and> invalidateSession ''tokenA'' (invalidateSession ''tokenA'' example_sessions)
        = [(''tokenB'', example_session 50)]
   \<and> invalidatePermissionCache 1 ''acme'' ''widgets'' (full_cache 0) = full_cache 0"
proof -
  have a: "''tokenC'' \<notin> Map_keys example_sessions"
    by (simp add: example_sessions_def)
  have b: "invalidateSession ''tokenA'' example_sessions = [(''tokenB'', example_session 50)]"
    by (simp add: invalidateSession_def example_sessions_def)
  show ?thesis
    using invalidate_idempotent [of "''tokenC''" example_sessions 1 "''acme''" "''widgets''" "full_cache 0"]
          invalidate_idempotent [of "''tokenA''" example_sessions 1 "''acme''" "''widgets''" "full_cache 0"]
          a b full_cache_fresh_key [of 0]
    by simp
qed


section \<open>The permission request never rejects\<close>




section \<open>Eviction from a full permission cache\<close>

text \<open>
  C4, at the failing input: the cache holds 10000 well-formed entries, all cached at
  time 2000, and the set call for a new key reads the clock at 2000 as well. No entry is
  evicted: all 10000 entries stay, the new one is appended, and the size is 10001.
\<close>

theorem setCachedPermission_clock_not_ahead:
  "Map_size (full_cache 2000) = MAX_CACHE_SIZE
   \<and> Map_ok (full_cache 2000)
   \<and> getCacheKey 1 ''acme'' ''widgets'' \<notin> Map_keys (full_cache 2000)
   \<and> snd (setCachedPermission 1 ''alice'' ''acme'' ''widgets'' (Str ''write'') None
            2000 2000 (full_cache 2000))
      = full_cache 2000 @
          [(getCacheKey 1 ''acme'' ''widgets'',
            \<lparr> userId = 1, username = ''alice'', owner = ''acme'', repo = ''widgets'',
              permission = Str ''write'', role = Collaborator, cachedAt = 2000,
              ttl = DEFAULT_TTL \<rparr>)]
   \<and> Map_size (snd (setCachedPermission 1 ''alice'' ''acme'' ''widgets'' (Str ''write'') None
                      2000 2000 (full_cache 2000))) = MAX_CACHE_SIZE + 1"
proof -
  have o: "\<forall>(k, entry) \<in> set (full_cache 2000). 2000 \<le> cachedAt entry"
    using full_cache_cachedAt [of 2000] by auto
  have n: "getCacheKey 1 ''acme'' ''widgets'' \<notin> Map_keys (full_cache 2000)"
    by (rule full_cache_fresh_key)
  have e: "fst (setCachedPermission 1 ''alice'' ''acme'' ''widgets'' (Str ''write'') None
            2000 2000 (full_cache 2000))
         = \<lparr> userId = 1, username = ''alice'', owner = ''acme'', repo = ''widgets'',
              permission = Str ''write'', role = Collaborator, cachedAt = 2000,
              ttl = DEFAULT_TTL \<rparr>"
    by (simp add: setCachedPermission_def Let_def)
  have s: "snd (setCachedPermission 1 ''alice'' ''acme'' ''widgets'' (Str ''write'') None
            2000 2000 (full_cache 2000))
      = full_cache 2000 @
          [(getCacheKey 1 ''acme'' ''widgets'',
            \<lparr> userId = 1, username = ''alice'', owner = ''acme'', repo = ''widgets'',
              permission = Str ''write'', role = Collaborator, cachedAt = 2000,
              ttl = DEFAULT_TTL \<rparr>)]"
    using setCachedPermission_none_older [OF o n, of "''alice''" "Str ''write''" None 2000] e
    by simp
  show ?thesis
    unfolding s using full_cache_ok [of 2000] n
    by (simp add: length_full_cache MAX_CACHE_SIZE_def)
qed

text \<open>
  C10. The scan names a key only when that key's entry has \<open>cachedAt\<close> strictly below
  the clock value the scan starts from. For a set call on a cache at capacity in which
  no entry has \<open>cachedAt\<close> below that clock value, the scan names no key, nothing is
  evicted, and a new key is appended: from 10000 entries the size becomes 10001.
\<close>

theorem oldest_scan_strict:
  assumes "Map_size cache \<ge> MAX_CACHE_SIZE"
    and "\<forall>(k, entry) \<in> set cache. scanStart \<le> cachedAt entry"
    and "getCacheKey uid own rep \<notin> Map_keys cache"
  shows "fst (oldest_scan cache ([], scanStart)) = []
       \<and> snd (setCachedPermission uid uname own rep perm ttl_arg now scanStart cache)
           = cache @ [(getCacheKey uid own rep,
                       fst (setCachedPermission uid uname own rep perm ttl_arg now scanStart cache))]
       \<and> (Map_size cache = 10000 \<longrightarrow>
            Map_size (snd (setCachedPermission uid uname own rep perm ttl_arg now scanStart cache))
              = 10001)
       \<and> (\<forall>k' cache'. fst (oldest_scan cache' ([], scanStart)) = k' \<and> k' \<noteq> [] \<longrightarrow>
            (\<exists>entry. (k', entry) \<in> set cache' \<and> cachedAt entry < scanStart))"
proof -
  have a: "fst (oldest_scan cache ([], scanStart)) = []"
    using assms(2) by (simp add: oldest_scan_none_older)
  have b: "snd (setCachedPermission uid uname own rep perm ttl_arg now scanStart cache)
           = cache @ [(getCacheKey uid own rep,
                       fst (setCachedPermission uid uname own rep perm ttl_arg now scanStart cache))]"
    using assms(2,3) by (rule setCachedPermission_none_older)
  have c: "Map_size cache = 10000 \<longrightarrow>
            Map_size (snd (setCachedPermission uid uname own rep perm ttl_arg now scanStart cache))
              = 10001"
    by (subst b) simp
  have d: "\<exists>entry. (k', entry) \<in> set cache' \<and> cachedAt entry < scanStart"
    if "fst (oldest_scan cache' ([], scanStart)) = k'" "k' \<noteq> []" for k' cache'
  proof -
    have "oldest_scan cache' ([], scanStart) = (k', snd (oldest_scan cache' ([], scanStart)))"
      using that(1) by (simp add: prod_eq_iff)
    from oldest_scan_pick [OF this] that(2) show ?thesis by auto
  qed
  from a b c d show ?thesis by blast
qed

theorem oldest_scan_strict_witness:
  "Map_size (full_cache 1000) = 10000
   \<and> fst (oldest_scan (full_cache 1000) ([], 1000)) = []
   \<and> Map_size (snd (setCachedPermission 1 ''alice'' ''acme'' ''widgets'' (Str ''write'') None
                      1000 1000 (full_cache 1000))) = 10001"
proof -
  have f: "Map_size (full_cache 1000) \<ge> MAX_CACHE_SIZE"
    by (simp add: length_full_cache MAX_CACHE_SIZE_def)
  have o: "\<forall>(k, entry) \<in> set (full_cache 1000). 1000 \<le> cachedAt entry"
    using full_cache_cachedAt [of 1000] by auto
  have n: "getCacheKey 1 ''acme'' ''widgets'' \<notin> Map_keys (full_cache 1000)"
    by (rule full_cache_fresh_key)
  show ?thesis
    using oldest_scan_strict [OF f o n, of "''alice''" "Str ''write''" None 1000]
          length_full_cache [of 1000]
    by simp
qed


end
